theory Spec2Isabelle
  imports Complex_Main "HOL-Library.Multiset" "HOL-Library.Log_Nat"
begin

section \<open>Values of the program\<close>

text \<open>
  The functions of \<^verbatim>\<open>shuffle_scores.cpp\<close> compute with C++ \<^verbatim>\<open>double\<close>s as R
  stores them. A \<open>dbl\<close> is such a value: R's missing value \<^verbatim>\<open>NA_REAL\<close> (a NaN with a
  payload of its own, the only value \<^verbatim>\<open>ISNA\<close> accepts), any other NaN, the two
  infinities, or a finite number, held as the real number it stands for.
\<close>

datatype dbl = NA_REAL | NaN | PosInf | NegInf | Fin real

definition ISNA :: "dbl \<Rightarrow> bool" where
  "ISNA d = (d = NA_REAL)"

text \<open>
  Division of doubles rounds the quotient to the nearest double, ties to the even
  significand. \<open>round_half_even\<close> rounds a real to the nearest integer in that way;
  \<open>binade_shift a b\<close> is the power of two that scales the quotient of two positive integers
  into \<open>[2 ^ 52, 2 ^ 53)\<close>, where the doubles are the integers; \<open>double_quotient a b\<close> is the
  double nearest to \<open>a / b\<close>. The exponent is not bounded: the quotient of two integers
  below \<open>2 ^ 64\<close> is neither subnormal nor infinite.
\<close>

definition round_half_even :: "real \<Rightarrow> int" where
  "round_half_even x =
     (let f = \<lfloor>x\<rfloor>; r = x - of_int f
      in if r < 1 / 2 then f else if 1 / 2 < r then f + 1 else if even f then f else f + 1)"

definition binade_shift :: "int \<Rightarrow> int \<Rightarrow> int" where
  "binade_shift a b =
     (let s = 53 + bitlen b - bitlen a
      in if 2 ^ 53 \<le> real_of_int a / real_of_int b * 2 powi s then s - 1 else s)"

definition double_quotient :: "int \<Rightarrow> int \<Rightarrow> real" where
  "double_quotient a b =
     (if a = 0 \<or> b = 0 then 0
      else (let s = binade_shift \<bar>a\<bar> \<bar>b\<bar>;
                m = round_half_even (real_of_int \<bar>a\<bar> / real_of_int \<bar>b\<bar> * 2 powi s)
            in real_of_int (sgn a * sgn b * m) / 2 powi s))"

text \<open>
  \<open>ddiv a b\<close> is \<^verbatim>\<open>static_cast<double>(a) / b\<close> for two integers \<open>a\<close> and \<open>b\<close>. The
  integers divided in this file count pairs and trials; they are below \<open>2 ^ 53\<close>, so their
  conversion to a double is exact and the division is the only rounding.
\<close>

definition ddiv :: "int \<Rightarrow> int \<Rightarrow> dbl" where
  "ddiv a b =
     (if b \<noteq> 0 then Fin (double_quotient a b)
      else if 0 < a then PosInf
      else if a < 0 then NegInf
      else NaN)"

text \<open>\<open>dless x y\<close> is the comparison \<^verbatim>\<open>x < y\<close> of two doubles: false when either is a NaN.\<close>

fun dless :: "dbl \<Rightarrow> dbl \<Rightarrow> bool" where
  "dless (Fin a) (Fin b) = (a < b)"
| "dless (Fin a) PosInf = True"
| "dless NegInf (Fin b) = True"
| "dless NegInf PosInf = True"
| "dless x y = False"

text \<open>
  What a call can end in besides a value: an exception thrown by this file
  (\<^verbatim>\<open>std::runtime_error\<close> with its message), a failure raised by a collaborator (the
  matrix provider, the allocator of the host runtime), and the two undefined behaviours of
  the C++ that an input can reach: a read outside a vector, which the code does not check,
  and the overflow of a signed integer.
\<close>

datatype error =
  runtime_error string | external_failure string | out_of_bounds | signed_overflow

section \<open>The proportion scorer\<close>

text \<open>\<^verbatim>\<open>*(eIt + i)\<close>: the unchecked read of element \<open>i\<close> of a vector.\<close>

definition expr_at :: "'a list \<Rightarrow> int \<Rightarrow> error + 'a" where
  "expr_at expr i =
     (if 0 \<le> i \<and> nat i < length expr then Inr (expr ! nat i) else Inl out_of_bounds)"

text \<open>
  Lines 22 to 32 of \<^verbatim>\<open>get_proportion\<close>: the test made after each pair, on the
  counters as that pair has left them. \<open>Some r\<close> is the immediate \<^verbatim>\<open>return r\<close>.
  The counters are C++ \<^verbatim>\<open>int\<close>s and \<open>leftovers\<close> a \<^verbatim>\<open>size_t\<close>; the model counts
  without a bound, so it covers pair lists shorter than \<open>2 ^ 31\<close>.
\<close>

definition early_return :: "int \<Rightarrow> dbl \<Rightarrow> int \<Rightarrow> int \<Rightarrow> nat \<Rightarrow> dbl option" where
  "early_return minpairs threshold was_first was_total leftovers =
     (if \<not> ISNA threshold \<and> minpairs \<le> was_total \<and> was_total mod 100 = 0 then
        (let max_total = was_total + int leftovers in
         if dless (ddiv (was_first + int leftovers + 1) max_total) threshold then Some (Fin (- 1))
         else if was_first \<noteq> 0 \<and> dless threshold (ddiv (was_first - 1) max_total)
           then Some (Fin 1)
         else None)
      else None)"

text \<open>
  The loop of lines 12 to 33 over the two marker vectors, read in step. The result is
  \<open>Inr (Inl r)\<close> for an early \<^verbatim>\<open>return r\<close>, and \<open>Inr (Inr (was_first, was_total))\<close>
  when every pair has been consumed. The loop runs over \<^verbatim>\<open>marker1.size()\<close> pairs, so a
  shorter \<open>marker2\<close> is read past its end. The values compared are those of an integer or
  a numeric vector; the model takes them from a linear order, which covers the integers and
  the doubles other than NaN.
\<close>

fun pair_loop ::
  "'a::linorder list \<Rightarrow> int \<Rightarrow> dbl \<Rightarrow> int list \<Rightarrow> int list \<Rightarrow> int \<Rightarrow> int
     \<Rightarrow> error + (dbl + int \<times> int)" where
  "pair_loop expr minpairs threshold [] m2 was_first was_total =
     Inr (Inr (was_first, was_total))"
| "pair_loop expr minpairs threshold (i # m1) [] was_first was_total = Inl out_of_bounds"
| "pair_loop expr minpairs threshold (i # m1) (j # m2) was_first was_total =
     (case expr_at expr i of
        Inl e \<Rightarrow> Inl e
      | Inr first \<Rightarrow>
          (case expr_at expr j of
             Inl e \<Rightarrow> Inl e
           | Inr second \<Rightarrow>
               (let was_first' = (if first \<noteq> second \<and> first > second
                                  then was_first + 1 else was_first);
                    was_total' = (if first \<noteq> second then was_total + 1 else was_total)
                in case early_return minpairs threshold was_first' was_total' (length m1) of
                     Some r \<Rightarrow> Inr (Inl r)
                   | None \<Rightarrow> pair_loop expr minpairs threshold m1 m2 was_first' was_total')))"

text \<open>
  \<^verbatim>\<open>get_proportion\<close>. The default argument \<^verbatim>\<open>threshold = NA_REAL\<close> is the call
  without a threshold; \<open>Fin (- 1)\<close> and \<open>Fin 1\<close> are the two directional results.
\<close>

definition get_proportion ::
  "'a::linorder list \<Rightarrow> int \<Rightarrow> int list \<Rightarrow> int list \<Rightarrow> dbl \<Rightarrow> error + dbl" where
  "get_proportion expr minpairs marker1 marker2 threshold =
     (case pair_loop expr minpairs threshold marker1 marker2 0 0 of
        Inl e \<Rightarrow> Inl e
      | Inr (Inl r) \<Rightarrow> Inr r
      | Inr (Inr (was_first, was_total)) \<Rightarrow>
          if was_total < minpairs then Inr NA_REAL
          else (let output = ddiv was_first was_total in
                if \<not> ISNA threshold
                then Inr (if dless output threshold then Fin (- 1) else Fin 1)
                else Inr output))"

text \<open>
  The scorer in the words of the specification, to compare the loop with: the pairs that
  are compared (the two values differ), those among them whose first value is the greater,
  and the result of a pass over every pair with no early exit.
\<close>

definition compared :: "'a::linorder list \<Rightarrow> int list \<Rightarrow> int list \<Rightarrow> nat" where
  "compared expr marker1 marker2 =
     length (filter (\<lambda>(i, j). expr ! nat i \<noteq> expr ! nat j) (zip marker1 marker2))"

definition first_greater :: "'a::linorder list \<Rightarrow> int list \<Rightarrow> int list \<Rightarrow> nat" where
  "first_greater expr marker1 marker2 =
     length (filter (\<lambda>(i, j). expr ! nat i > expr ! nat j) (zip marker1 marker2))"

definition full_pass :: "'a::linorder list \<Rightarrow> int \<Rightarrow> int list \<Rightarrow> int list \<Rightarrow> dbl \<Rightarrow> dbl" where
  "full_pass expr minpairs marker1 marker2 threshold =
     (if int (compared expr marker1 marker2) < minpairs then NA_REAL
      else (let proportion = ddiv (int (first_greater expr marker1 marker2))
                                  (int (compared expr marker1 marker2))
            in if ISNA threshold then proportion
               else if dless proportion threshold then Fin (- 1) else Fin 1))"

text \<open>Every marker pair compares two equal values.\<close>

definition all_tied :: "'a::linorder list \<Rightarrow> int list \<Rightarrow> int list \<Rightarrow> bool" where
  "all_tied expr marker1 marker2 =
     (\<forall>(i, j) \<in> set (zip marker1 marker2). expr ! nat i = expr ! nat j)"


text \<open>
  The invariant of the data model on a marker pair list: two vectors of one length whose
  entries index the used subset, \<open>0 \<le> index < nused\<close>.
\<close>

definition valid_pairs :: "nat \<Rightarrow> int list \<Rightarrow> int list \<Rightarrow> bool" where
  "valid_pairs nused marker1 marker2 =
     (length marker1 = length marker2
      \<and> (\<forall>i \<in> set marker1. 0 \<le> i \<and> i < int nused)
      \<and> (\<forall>j \<in> set marker2. 0 \<le> j \<and> j < int nused))"

section \<open>The permutation engine\<close>

text \<open>
  Three collaborators of \<^verbatim>\<open>shuffle_scores_internal\<close> are declared in \<^verbatim>\<open>scran.h\<close> and
  the matrix library, not in this file, and are parameters of the model:
  \<^item> \<^verbatim>\<open>Rx_shuffle(begin, end)\<close>, which rearranges a range in place and draws from the
    random source of the host runtime: a function from the state of the random source and
    the range to the rearranged range and the next state;
  \<^item> \<^verbatim>\<open>check_integer_scalar(v, what)\<close>, which unwraps an integer argument or throws;
  \<^item> the matrix provider behind \<^verbatim>\<open>mat_ptr\<close>, with its row count and its column access,
    which may fail.
\<close>

type_synonym ('g, 'a) shuffler = "'g \<Rightarrow> 'a list \<Rightarrow> 'a list \<times> 'g"

type_synonym scalar_check = "int list \<Rightarrow> string \<Rightarrow> error + int"

record 'a matrix_provider =
  get_nrow :: nat
  get_const_col :: "int \<Rightarrow> error + 'a list"

text \<open>
  What the specification requires of the shuffle primitive: its result is a rearrangement
  of its argument.
\<close>

definition permuting :: "('g, 'a) shuffler \<Rightarrow> bool" where
  "permuting Rx_shuffle = (\<forall>g xs. mset (fst (Rx_shuffle g xs)) = mset xs)"

text \<open>
  The marker check of lines 61 to 67. \<^verbatim>\<open>m1m >= nused\<close> compares an \<^verbatim>\<open>int\<close> with a
  \<^verbatim>\<open>size_t\<close>, so a negative \<open>m1m\<close> is converted to a large unsigned number and the first
  disjunct is true of it as well: the disjunction is the one written here.
\<close>

fun check_markers :: "nat \<Rightarrow> int list \<Rightarrow> int list \<Rightarrow> error + unit" where
  "check_markers nused [] marker2 = Inr ()"
| "check_markers nused (m1m # marker1) marker2 =
     (if int nused \<le> m1m \<or> m1m < 0
      then Inl (runtime_error ''first marker indices are out of range'')
      else (case marker2 of
              [] \<Rightarrow> Inl out_of_bounds
            | m2m # marker2' \<Rightarrow>
                if int nused \<le> m2m \<or> m2m < 0
                then Inl (runtime_error ''second marker indices are out of range'')
                else check_markers nused marker1 marker2'))"

text \<open>The check of the used indices, lines 70 to 73.\<close>

fun check_used :: "nat \<Rightarrow> int list \<Rightarrow> error + unit" where
  "check_used ngenes [] = Inr ()"
| "check_used ngenes (usedex # used) =
     (if int ngenes \<le> usedex \<or> usedex < 0
      then Inl (runtime_error ''used gene indices are out of range'')
      else check_used ngenes used)"

text \<open>Lines 84 to 87: the used subset of a column, in the order of \<open>used\<close>.\<close>

fun gather :: "'a list \<Rightarrow> int list \<Rightarrow> error + 'a list" where
  "gather inIt [] = Inr []"
| "gather inIt (u # used) =
     (case expr_at inIt u of
        Inl e \<Rightarrow> Inl e
      | Inr x \<Rightarrow> (case gather inIt used of Inl e \<Rightarrow> Inl e | Inr xs \<Rightarrow> Inr (x # xs)))"

text \<open>
  The permutation loop of lines 96 to 103, by the number of iterations still to run. It
  returns the two counters (\<^verbatim>\<open>below\<close> and \<^verbatim>\<open>total\<close> in the source), and with them
  the buffer and the random source as the loop leaves them.
\<close>

fun trial_loop ::
  "('g, 'a::linorder) shuffler \<Rightarrow> int \<Rightarrow> int list \<Rightarrow> int list \<Rightarrow> dbl \<Rightarrow> nat \<Rightarrow> 'a list \<Rightarrow> 'g
     \<Rightarrow> int \<Rightarrow> int \<Rightarrow> error + (int \<times> int \<times> 'a list \<times> 'g)" where
  "trial_loop Rx_shuffle minp marker1 marker2 curscore 0 current_exprs g nbelow ntotal =
     Inr (nbelow, ntotal, current_exprs, g)"
| "trial_loop Rx_shuffle minp marker1 marker2 curscore (Suc n) current_exprs g nbelow ntotal =
     (case Rx_shuffle g current_exprs of
        (shuffled, g') \<Rightarrow>
          (case get_proportion shuffled minp marker1 marker2 curscore of
             Inl e \<Rightarrow> Inl e
           | Inr newscore \<Rightarrow>
               if \<not> ISNA newscore
               then trial_loop Rx_shuffle minp marker1 marker2 curscore n shuffled g'
                      (if dless newscore (Fin 0) then nbelow + 1 else nbelow) (ntotal + 1)
               else trial_loop Rx_shuffle minp marker1 marker2 curscore n shuffled g'
                      nbelow ntotal))"

text \<open>
  The body of the loop over the cells, lines 82 to 107, for one column \<open>inIt\<close> of the
  matrix. The result is the value assigned to the output slot of the cell, \<open>None\<close> when the
  body leaves the slot as it was initialised, and the random source after the cell.
\<close>

definition score_cell ::
  "('g, 'a::linorder) shuffler \<Rightarrow> int list \<Rightarrow> int list \<Rightarrow> int list \<Rightarrow> int \<Rightarrow> int \<Rightarrow> int
     \<Rightarrow> 'a list \<Rightarrow> 'g \<Rightarrow> error + (dbl option \<times> 'g)" where
  "score_cell Rx_shuffle marker1 marker2 used nit minit minp inIt g =
     (case gather inIt used of
        Inl e \<Rightarrow> Inl e
      | Inr current_exprs \<Rightarrow>
          (case get_proportion current_exprs minp marker1 marker2 NA_REAL of
             Inl e \<Rightarrow> Inl e
           | Inr curscore \<Rightarrow>
               if ISNA curscore then Inr (None, g)
               else (case trial_loop Rx_shuffle minp marker1 marker2 curscore (nat nit)
                            current_exprs g 0 0 of
                       Inl e \<Rightarrow> Inl e
                     | Inr (nbelow, ntotal, buffer, g') \<Rightarrow>
                         Inr (if minit \<le> ntotal then Some (ddiv nbelow ntotal) else None, g'))))"

text \<open>
  Line 83, the column of one cell. The cell is a C++ \<^verbatim>\<open>int\<close>, between \<open>- 2 ^ 31\<close> and
  \<open>2 ^ 31 - 1\<close>, and \<^verbatim>\<open>*cIt - 1\<close> is computed on that type: at the least \<^verbatim>\<open>int\<close>, which is R's
  \<^verbatim>\<open>NA_integer_\<close>, the subtraction overflows. Every other cell reaches the provider as
  \<open>c - 1\<close>; what the provider makes of an index below 0 or past its last column is the
  provider's.
\<close>

definition cell_column :: "'a matrix_provider \<Rightarrow> int \<Rightarrow> error + 'a list" where
  "cell_column mat c =
     (if - 2147483648 < c then get_const_col mat (c - 1) else Inl signed_overflow)"

text \<open>The loop over the requested cells, lines 80 to 108; \<open>k\<close> is the position of \<^verbatim>\<open>oIt\<close>.\<close>

fun cell_loop ::
  "('g, 'a::linorder) shuffler \<Rightarrow> 'a matrix_provider \<Rightarrow> int list \<Rightarrow> int list \<Rightarrow> int list
     \<Rightarrow> int \<Rightarrow> int \<Rightarrow> int \<Rightarrow> int list \<Rightarrow> nat \<Rightarrow> dbl list \<Rightarrow> 'g \<Rightarrow> error + (dbl list \<times> 'g)" where
  "cell_loop Rx_shuffle mat marker1 marker2 used nit minit minp [] k output g =
     Inr (output, g)"
| "cell_loop Rx_shuffle mat marker1 marker2 used nit minit minp (c # mycells) k output g =
     (case cell_column mat c of
        Inl e \<Rightarrow> Inl e
      | Inr inIt \<Rightarrow>
          (case score_cell Rx_shuffle marker1 marker2 used nit minit minp inIt g of
             Inl e \<Rightarrow> Inl e
           | Inr (v, g') \<Rightarrow>
               cell_loop Rx_shuffle mat marker1 marker2 used nit minit minp mycells (Suc k)
                 (case v of None \<Rightarrow> output | Some x \<Rightarrow> output[k := x]) g'))"

text \<open>
  \<^verbatim>\<open>shuffle_scores_internal\<close>: the checks in the order of the source, then the loop over
  the cells on an output vector filled with \<^verbatim>\<open>NA_REAL\<close>. A successful call returns the
  output vector and the random source as the call leaves it.
\<close>

definition shuffle_scores_internal ::
  "scalar_check \<Rightarrow> ('g, 'a::linorder) shuffler \<Rightarrow> 'a matrix_provider \<Rightarrow> int list
     \<Rightarrow> int list \<Rightarrow> int list \<Rightarrow> int list \<Rightarrow> int list \<Rightarrow> int list \<Rightarrow> int list \<Rightarrow> 'g
     \<Rightarrow> error + (dbl list \<times> 'g)" where
  "shuffle_scores_internal check_integer_scalar Rx_shuffle mat mycells marker1 marker2 used
       iter miniter minpair g =
     (let ncells = length mycells; ngenes = get_nrow mat; npairs = length marker1 in
      if npairs \<noteq> length marker2
      then Inl (runtime_error ''vectors of markers must be of the same length'')
      else
        (let nused = length used in
         case check_integer_scalar iter ''number of iterations'' of
           Inl e \<Rightarrow> Inl e
         | Inr nit \<Rightarrow>
         (case check_integer_scalar miniter ''minimum number of iterations'' of
           Inl e \<Rightarrow> Inl e
         | Inr minit \<Rightarrow>
         (case check_integer_scalar minpair ''minimum number of pairs'' of
           Inl e \<Rightarrow> Inl e
         | Inr minp \<Rightarrow>
         (case check_markers nused marker1 marker2 of
           Inl e \<Rightarrow> Inl e
         | Inr u \<Rightarrow>
         (case check_used ngenes used of
           Inl e \<Rightarrow> Inl e
         | Inr u' \<Rightarrow>
             cell_loop Rx_shuffle mat marker1 marker2 used nit minit minp mycells 0
               (replicate ncells NA_REAL) g))))))"

text \<open>
  \<^verbatim>\<open>shuffle_scores\<close> builds the provider for an integer or a numeric matrix and calls
  \<^verbatim>\<open>shuffle_scores_internal\<close> at the matching vector type; the model is polymorphic in
  the element type, so the two branches are one. \<^verbatim>\<open>BEGIN_RCPP\<close> and \<^verbatim>\<open>END_RCPP\<close> hand
  an exception to the caller as an error: the \<open>Inl\<close> results.
\<close>

definition shuffle_scores ::
  "scalar_check \<Rightarrow> ('g, 'a::linorder) shuffler \<Rightarrow> int list \<Rightarrow> 'a matrix_provider
     \<Rightarrow> int list \<Rightarrow> int list \<Rightarrow> int list \<Rightarrow> int list \<Rightarrow> int list \<Rightarrow> int list \<Rightarrow> 'g
     \<Rightarrow> error + (dbl list \<times> 'g)" where
  "shuffle_scores check_integer_scalar Rx_shuffle mycells exprs marker1 marker2 indices
       iter miniter minpair g =
     shuffle_scores_internal check_integer_scalar Rx_shuffle exprs mycells marker1 marker2
       indices iter miniter minpair g"

text \<open>
  The chain of shuffles that both the permutation loop and the cascading shuffle run: the
  first entry is the shuffle of the starting vector, each later entry the shuffle of the
  entry before it, and each entry carries the random source as its shuffle leaves it.
\<close>

fun shuffle_chain :: "('g, 'a) shuffler \<Rightarrow> nat \<Rightarrow> 'a list \<Rightarrow> 'g \<Rightarrow> ('a list \<times> 'g) list" where
  "shuffle_chain Rx_shuffle 0 buffer g = []"
| "shuffle_chain Rx_shuffle (Suc n) buffer g =
     Rx_shuffle g buffer
       # shuffle_chain Rx_shuffle n (fst (Rx_shuffle g buffer)) (snd (Rx_shuffle g buffer))"

definition source_after :: "('g, 'a) shuffler \<Rightarrow> nat \<Rightarrow> 'a list \<Rightarrow> 'g \<Rightarrow> 'g" where
  "source_after Rx_shuffle n buffer g = snd (last ((buffer, g) # shuffle_chain Rx_shuffle n buffer g))"

definition buffer_after :: "('g, 'a) shuffler \<Rightarrow> nat \<Rightarrow> 'a list \<Rightarrow> 'g \<Rightarrow> 'a list" where
  "buffer_after Rx_shuffle n buffer g = fst (last ((buffer, g) # shuffle_chain Rx_shuffle n buffer g))"

text \<open>
  The permutation test of one sample in the words of the specification: the scores of the
  \<open>n\<close> trials against the observed score, the trials that count (the score is not
  missing), and those among them classified below the observed score.
\<close>

definition trial_scores ::
  "('g, 'a::linorder) shuffler \<Rightarrow> int \<Rightarrow> int list \<Rightarrow> int list \<Rightarrow> dbl \<Rightarrow> nat \<Rightarrow> 'a list \<Rightarrow> 'g
     \<Rightarrow> (error + dbl) list" where
  "trial_scores Rx_shuffle minp marker1 marker2 observed n buffer g =
     map (\<lambda>(b, g'). get_proportion b minp marker1 marker2 observed)
       (shuffle_chain Rx_shuffle n buffer g)"

definition validCount :: "(error + dbl) list \<Rightarrow> nat" where
  "validCount scores =
     length (filter (\<lambda>s. case s of Inl e \<Rightarrow> False | Inr r \<Rightarrow> \<not> ISNA r) scores)"

definition belowCount :: "(error + dbl) list \<Rightarrow> nat" where
  "belowCount scores = length (filter (\<lambda>s. s = Inr (Fin (- 1))) scores)"

text \<open>The invariant of the data model on the used indices: \<open>0 \<le> index < ngenes\<close>.\<close>

definition valid_used :: "nat \<Rightarrow> int list \<Rightarrow> bool" where
  "valid_used ngenes used = (\<forall>u \<in> set used. 0 \<le> u \<and> u < int ngenes)"

section \<open>The cascading shuffle\<close>

text \<open>
  \<^verbatim>\<open>auto_shuffle\<close> fills a column-major matrix. The iterator \<^verbatim>\<open>source\<close> points into the
  input vector at first and into the matrix from the second iteration on, so the model
  keeps it as a pointer and reads through it at each copy.
\<close>

record 'a numeric_matrix =
  nrow :: nat
  ncol :: nat
  entries :: "'a list"

datatype source_ptr = Into_invec | Into_outmat nat

definition read_source :: "'a list \<Rightarrow> 'a list \<Rightarrow> source_ptr \<Rightarrow> nat \<Rightarrow> 'a list" where
  "read_source invec outmat source N =
     (case source of Into_invec \<Rightarrow> take N invec | Into_outmat off \<Rightarrow> take N (drop off outmat))"

definition write_range :: "'a list \<Rightarrow> nat \<Rightarrow> 'a list \<Rightarrow> 'a list" where
  "write_range outmat off xs = take off outmat @ xs @ drop (off + length xs) outmat"

text \<open>The loop of lines 147 to 152, by the number of iterations still to run.\<close>

fun shuffle_columns ::
  "('g, 'a) shuffler \<Rightarrow> 'a list \<Rightarrow> nat \<Rightarrow> nat \<Rightarrow> source_ptr \<Rightarrow> nat \<Rightarrow> 'a list \<Rightarrow> 'g
     \<Rightarrow> 'a list \<times> 'g" where
  "shuffle_columns Rx_shuffle invec N 0 source oIt outmat g = (outmat, g)"
| "shuffle_columns Rx_shuffle invec N (Suc n) source oIt outmat g =
     (let copied = write_range outmat oIt (read_source invec outmat source N) in
      case Rx_shuffle g (take N (drop oIt copied)) of
        (shuffled, g') \<Rightarrow>
          shuffle_columns Rx_shuffle invec N n (Into_outmat oIt) (oIt + N)
            (write_range copied oIt shuffled) g')"

text \<open>
  \<^verbatim>\<open>auto_shuffle\<close>. The iteration count is element 0 of \<open>nits\<close>, read unchecked; the
  allocator of the host runtime refuses a matrix with a negative extent (the failure is the
  runtime's, its message is not modelled); the matrix is filled with zeros when allocated.
\<close>

definition auto_shuffle ::
  "('g, 'a::zero) shuffler \<Rightarrow> 'a list \<Rightarrow> int list \<Rightarrow> 'g \<Rightarrow> error + ('a numeric_matrix \<times> 'g)" where
  "auto_shuffle Rx_shuffle incoming nits g =
     (case nits of
        [] \<Rightarrow> Inl out_of_bounds
      | niters # rest \<Rightarrow>
          if niters < 0 then Inl (external_failure ''matrix allocation'')
          else
            (let N = length incoming;
                 outmat = replicate (N * nat niters) 0
             in case shuffle_columns Rx_shuffle incoming N (nat niters) Into_invec 0 outmat g of
                  (filled, g') \<Rightarrow> Inr (\<lparr>nrow = N, ncol = nat niters, entries = filled\<rparr>, g')))"

text \<open>Column \<open>i\<close> of a column-major matrix.\<close>

definition column :: "'a numeric_matrix \<Rightarrow> nat \<Rightarrow> 'a list" where
  "column M i = take (nrow M) (drop (i * nrow M) (entries M))"

text \<open>
  Instances of the three parameters for the examples. The first is a deterministic
  stand-in for the shuffle primitive, of the kind the specification asks tests to
  substitute for the random source: the state is a counter, and the range is rotated by it.
\<close>

definition rotating_shuffle :: "(nat, 'a) shuffler" where
  "rotating_shuffle g xs = (rotate g xs, Suc g)"

text \<open>A scalar check for the examples: it accepts the vectors of length one.\<close>

definition length_one_scalar :: scalar_check where
  "length_one_scalar v what =
     (case v of [x] \<Rightarrow> Inr x | _ \<Rightarrow> Inl (runtime_error (what @ '' should be an integer scalar'')))"

text \<open>
  A provider for the examples, with four rows and a single column: every column index but
  0 is refused, as a provider that checks its index refuses it.
\<close>

definition demo_matrix :: "int matrix_provider" where
  "demo_matrix =
     \<lparr>get_nrow = 4,
      get_const_col = (\<lambda>c. if c = 0 then Inr [5, 3, 3, 1]
                            else Inl (external_failure ''column index out of range''))\<rparr>"


section \<open>Rounding to a double\<close>

lemma round_half_even_floor: "of_int \<lfloor>x\<rfloor> \<le> (of_int (round_half_even x) :: real)"
  by (simp add: round_half_even_def Let_def)

lemma round_half_even_bounds: "\<lfloor>x\<rfloor> \<le> round_half_even x \<and> round_half_even x \<le> \<lfloor>x\<rfloor> + 1"
  by (simp add: round_half_even_def Let_def)

lemma round_half_even_of_int [simp]: "round_half_even (of_int n) = n"
  by (simp add: round_half_even_def Let_def)

lemma round_half_even_mono: "x \<le> y \<Longrightarrow> round_half_even x \<le> round_half_even y"
proof -
  assume xy: "x \<le> y"
  then have fl: "\<lfloor>x\<rfloor> \<le> \<lfloor>y\<rfloor>" by (rule floor_mono)
  show ?thesis
  proof (cases "\<lfloor>x\<rfloor> = \<lfloor>y\<rfloor>")
    case True
    with xy show ?thesis by (auto simp: round_half_even_def Let_def)
  next
    case False
    with fl have "\<lfloor>x\<rfloor> + 1 \<le> \<lfloor>y\<rfloor>" by simp
    with round_half_even_bounds [of x] round_half_even_bounds [of y] show ?thesis by linarith
  qed
qed


lemma binade_shift_range:
  assumes "0 < a" "0 < b"
  shows "2 ^ 52 \<le> real_of_int a / real_of_int b * 2 powi binade_shift a b
       \<and> real_of_int a / real_of_int b * 2 powi binade_shift a b < 2 ^ 53"
proof -
  define la where "la = bitlen a"
  define lb where "lb = bitlen b"
  define s where "s = 53 + lb - la"
  define x where "x = real_of_int a / real_of_int b"
  have la1: "1 \<le> la" and lb1: "1 \<le> lb"
    using assms by (auto simp: la_def lb_def bitlen_alt_def)
  have xpos: "0 < x" using assms by (simp add: x_def)
  have ba: "2 powi (la - 1) \<le> real_of_int a" "real_of_int a < 2 powi la"
  proof -
    from bitlen_bounds [OF assms(1)]
    have "real_of_int (2 ^ nat (la - 1)) \<le> real_of_int a" "real_of_int a < real_of_int (2 ^ nat la)"
      unfolding la_def by (simp_all only: of_int_le_iff of_int_less_iff)
    then show "2 powi (la - 1) \<le> real_of_int a" "real_of_int a < 2 powi la"
      using la1 by (simp_all add: power_int_def)
  qed
  have bb: "2 powi (lb - 1) \<le> real_of_int b" "real_of_int b < 2 powi lb"
  proof -
    from bitlen_bounds [OF assms(2)]
    have "real_of_int (2 ^ nat (lb - 1)) \<le> real_of_int b" "real_of_int b < real_of_int (2 ^ nat lb)"
      unfolding lb_def by (simp_all only: of_int_le_iff of_int_less_iff)
    then show "2 powi (lb - 1) \<le> real_of_int b" "real_of_int b < 2 powi lb"
      using lb1 by (simp_all add: power_int_def)
  qed
  have bpos: "0 < real_of_int b" and apos: "0 < real_of_int a" using assms by simp_all
  have lo: "2 powi (la - lb - 1) < x"
  proof -
    have "2 powi (la - lb - 1) * real_of_int b < 2 powi (la - lb - 1) * 2 powi lb"
      using bb(2) by (intro mult_strict_left_mono) simp_all
    also have "\<dots> = 2 powi (la - 1)"
      by (simp flip: power_int_add)
    also have "\<dots> \<le> real_of_int a" by (rule ba(1))
    finally show ?thesis using bpos by (simp add: x_def pos_less_divide_eq)
  qed
  have hi: "x < 2 powi (la - lb + 1)"
  proof -
    have "real_of_int a < 2 powi la" by (rule ba(2))
    also have "\<dots> = 2 powi (la - lb + 1) * 2 powi (lb - 1)"
      by (simp flip: power_int_add)
    also have "\<dots> \<le> 2 powi (la - lb + 1) * real_of_int b"
      using bb(1) by (intro mult_left_mono) simp_all
    finally show ?thesis using bpos by (simp add: x_def pos_divide_less_eq)
  qed
  have lo': "2 ^ 52 < x * 2 powi s"
  proof -
    have "(2::real) ^ 52 = 2 powi (la - lb - 1) * 2 powi s"
      by (simp add: s_def flip: power_int_add)
    also have "\<dots> < x * 2 powi s"
      using lo by (intro mult_strict_right_mono) simp_all
    finally show ?thesis .
  qed
  have hi': "x * 2 powi s < 2 ^ 54"
  proof -
    have "x * 2 powi s < 2 powi (la - lb + 1) * 2 powi s"
      using hi by (intro mult_strict_right_mono) simp_all
    also have "\<dots> = 2 ^ 54"
      by (simp add: s_def flip: power_int_add)
    finally show ?thesis .
  qed
  have half: "x * 2 powi (s - 1) = x * 2 powi s / 2"
    by (simp add: power_int_diff)
  show ?thesis
  proof (cases "2 ^ 53 \<le> x * 2 powi s")
    case True
    then have bs: "binade_shift a b = s - 1"
      by (simp add: binade_shift_def Let_def s_def la_def lb_def x_def)
    from True hi' show ?thesis
      unfolding bs x_def [symmetric] half by simp
  next
    case False
    then have bs: "binade_shift a b = s"
      by (simp add: binade_shift_def Let_def s_def la_def lb_def x_def)
    from False lo' show ?thesis
      unfolding bs x_def [symmetric] by simp
  qed
qed

lemma rounded_mono:
  fixes x y :: real and s t :: int
  assumes xy: "x \<le> y"
    and bx: "2 ^ 52 \<le> x * 2 powi s" "x * 2 powi s < 2 ^ 53"
    and bdy: "2 ^ 52 \<le> y * 2 powi t" "y * 2 powi t < 2 ^ 53"
  shows "real_of_int (round_half_even (x * 2 powi s)) / 2 powi s
       \<le> real_of_int (round_half_even (y * 2 powi t)) / 2 powi t"
proof -
  have xpos: "0 < x"
  proof (rule ccontr)
    assume "\<not> 0 < x"
    then have "x * 2 powi s \<le> 0" by (simp add: mult_le_0_iff)
    with bx(1) show False by simp
  qed
  have ts: "t \<le> s"
  proof (rule ccontr)
    assume "\<not> t \<le> s"
    then have "s + 1 \<le> t" by simp
    then have "(2::real) powi (s + 1) \<le> 2 powi t" by (intro power_int_increasing) simp_all
    then have "x * 2 powi (s + 1) \<le> y * 2 powi t"
      using xy xpos by (intro mult_mono) simp_all
    moreover have "x * 2 powi (s + 1) = 2 * (x * 2 powi s)" by (simp add: power_int_add)
    ultimately show False using bx(1) bdy(2) by simp
  qed
  have mx: "real_of_int (round_half_even (x * 2 powi s)) \<le> 2 ^ 53"
  proof -
    have "round_half_even (x * 2 powi s) \<le> round_half_even (real_of_int (2 ^ 53))"
      using bx(2) by (intro round_half_even_mono) simp
    then have "round_half_even (x * 2 powi s) \<le> 2 ^ 53" by (simp only: round_half_even_of_int)
    then have "real_of_int (round_half_even (x * 2 powi s)) \<le> real_of_int (2 ^ 53)"
      by (simp only: of_int_le_iff)
    then show ?thesis by simp
  qed
  have my: "2 ^ 52 \<le> real_of_int (round_half_even (y * 2 powi t))"
  proof -
    have "round_half_even (real_of_int (2 ^ 52)) \<le> round_half_even (y * 2 powi t)"
      using bdy(1) by (intro round_half_even_mono) simp
    then have "2 ^ 52 \<le> round_half_even (y * 2 powi t)" by (simp only: round_half_even_of_int)
    then have "real_of_int (2 ^ 52) \<le> real_of_int (round_half_even (y * 2 powi t))"
      by (simp only: of_int_le_iff)
    then show ?thesis by simp
  qed
  show ?thesis
  proof (cases "t = s")
    case True
    have "x * 2 powi s \<le> y * 2 powi s" using xy by (intro mult_right_mono) simp_all
    then have "round_half_even (x * 2 powi s) \<le> round_half_even (y * 2 powi s)"
      by (rule round_half_even_mono)
    then show ?thesis unfolding True by (simp add: divide_right_mono)
  next
    case False
    with ts have lt: "t + 1 \<le> s" by simp
    have "real_of_int (round_half_even (x * 2 powi s)) / 2 powi s \<le> 2 ^ 53 / 2 powi s"
      using mx by (intro divide_right_mono) simp_all
    also have "\<dots> = 2 powi (53 - s)" by (simp add: power_int_diff)
    also have "\<dots> \<le> 2 powi (52 - t)" using lt by (intro power_int_increasing) simp_all
    also have "\<dots> = 2 ^ 52 / 2 powi t" by (simp add: power_int_diff)
    also have "\<dots> \<le> real_of_int (round_half_even (y * 2 powi t)) / 2 powi t"
      using my by (intro divide_right_mono) simp_all
    finally show ?thesis .
  qed
qed

lemma double_quotient_positive:
  assumes "0 < a" "0 < b"
  shows "double_quotient a b =
           real_of_int (round_half_even (real_of_int a / real_of_int b * 2 powi binade_shift a b))
             / 2 powi binade_shift a b"
  using assms by (simp add: double_quotient_def Let_def)

lemma double_quotient_zero [simp]: "double_quotient 0 b = 0"
  by (simp add: double_quotient_def)

lemma double_quotient_nonneg:
  assumes "0 \<le> a" "0 < b"
  shows "0 \<le> double_quotient a b"
proof (cases "a = 0")
  case True
  then show ?thesis by simp
next
  case False
  with assms have a: "0 < a" by simp
  from binade_shift_range [OF a assms(2)]
  have "round_half_even (real_of_int 0) \<le>
      round_half_even (real_of_int a / real_of_int b * 2 powi binade_shift a b)"
    by (intro round_half_even_mono) simp
  then have "0 \<le> round_half_even (real_of_int a / real_of_int b * 2 powi binade_shift a b)"
    by (simp only: round_half_even_of_int)
  then show ?thesis
    by (simp add: double_quotient_positive [OF a assms(2)])
qed

text \<open>Rounding to the nearest double is monotone.\<close>

lemma double_quotient_mono:
  assumes "0 \<le> a" "0 < b" "0 \<le> c" "0 < d"
    and le: "real_of_int a / real_of_int b \<le> real_of_int c / real_of_int d"
  shows "double_quotient a b \<le> double_quotient c d"
proof (cases "a = 0")
  case True
  then show ?thesis using double_quotient_nonneg [OF assms(3,4)] by simp
next
  case False
  with assms(1) have a: "0 < a" by simp
  have "0 < real_of_int a / real_of_int b" using a assms(2) by simp
  with le have "0 < real_of_int c / real_of_int d" by linarith
  with assms(3,4) have c: "0 < c" by (simp add: zero_less_divide_iff)
  from binade_shift_range [OF a assms(2)] binade_shift_range [OF c assms(4)]
  show ?thesis
    unfolding double_quotient_positive [OF a assms(2)] double_quotient_positive [OF c assms(4)]
    by (intro rounded_mono [OF le]) simp_all
qed

lemma double_quotient_one: "0 < b \<Longrightarrow> double_quotient b b = 1"
proof -
  assume b: "0 < b"
  have one: "double_quotient 1 1 = 1" by code_simp
  have "double_quotient b b \<le> double_quotient 1 1" "double_quotient 1 1 \<le> double_quotient b b"
    using b by (intro double_quotient_mono; simp)+
  with one show ?thesis by simp
qed



section \<open>Counting the pairs\<close>





lemma compared_Nil [simp]: "compared expr [] m2 = 0" "compared expr m1 [] = 0"
  by (simp_all add: compared_def)

lemma first_greater_Nil [simp]: "first_greater expr [] m2 = 0" "first_greater expr m1 [] = 0"
  by (simp_all add: first_greater_def)

lemma compared_Cons [simp]:
  "compared expr (i # m1) (j # m2) =
     (if expr ! nat i \<noteq> expr ! nat j then Suc (compared expr m1 m2) else compared expr m1 m2)"
  by (simp add: compared_def)

lemma first_greater_Cons [simp]:
  "first_greater expr (i # m1) (j # m2) =
     (if expr ! nat i > expr ! nat j then Suc (first_greater expr m1 m2)
      else first_greater expr m1 m2)"
  by (simp add: first_greater_def)



lemma valid_pairs_Nil [simp]: "valid_pairs n [] []"
  by (simp add: valid_pairs_def)

lemma valid_pairs_Cons [simp]:
  "valid_pairs n (i # m1) (j # m2) \<longleftrightarrow>
     0 \<le> i \<and> i < int n \<and> 0 \<le> j \<and> j < int n \<and> valid_pairs n m1 m2"
  by (auto simp: valid_pairs_def)

lemma valid_pairs_length: "valid_pairs n m1 m2 \<Longrightarrow> length m1 = length m2"
  by (simp add: valid_pairs_def)

lemma expr_at_in_range: "0 \<le> i \<Longrightarrow> i < int (length expr) \<Longrightarrow> expr_at expr i = Inr (expr ! nat i)"
  by (simp add: expr_at_def nat_less_iff)

lemma early_return_NA [simp]: "early_return minp NA_REAL f c L = None"
  by (simp add: early_return_def ISNA_def)

lemma pair_loop_no_threshold:
  "valid_pairs (length expr) m1 m2 \<Longrightarrow>
     pair_loop expr minp NA_REAL m1 m2 nf nt =
       Inr (Inr (nf + int (first_greater expr m1 m2), nt + int (compared expr m1 m2)))"
proof (induction m1 arbitrary: m2 nf nt)
  case Nil
  then show ?case by (simp add: valid_pairs_def)
next
  case (Cons i m1)
  then obtain j m2' where m2: "m2 = j # m2'"
    by (cases m2) (auto simp: valid_pairs_def)
  with Cons.prems have rng: "0 \<le> i" "i < int (length expr)" "0 \<le> j" "j < int (length expr)"
    and rest: "valid_pairs (length expr) m1 m2'" by simp_all
  show ?case
    unfolding m2 using Cons.IH [OF rest] rng
    by (simp add: expr_at_in_range Let_def)
qed



section \<open>The scorer without a threshold\<close>

lemma get_proportion_full_pass_NA:
  assumes "valid_pairs (length expr) m1 m2"
  shows "get_proportion expr minp m1 m2 NA_REAL = Inr (full_pass expr minp m1 m2 NA_REAL)"
  using pair_loop_no_threshold [OF assms, of minp 0 0]
  by (simp add: get_proportion_def full_pass_def ISNA_def Let_def)





lemma all_tied_compared: "all_tied expr m1 m2 \<Longrightarrow> compared expr m1 m2 = 0"
  by (auto simp: all_tied_def compared_def filter_empty_conv)

text \<open>
  Claim C4. When every marker pair compares two equal values, the scorer called without a
  threshold returns \<^verbatim>\<open>NA_REAL\<close>, whatever the positive \<open>minpairs\<close> of the interface is.
\<close>

theorem all_tied_missing:
  assumes "valid_pairs (length expr) m1 m2" "all_tied expr m1 m2" "1 \<le> minp"
  shows "get_proportion expr minp m1 m2 NA_REAL = Inr NA_REAL"
  using pair_loop_no_threshold [OF assms(1), of minp 0 0] all_tied_compared [OF assms(2)]
    assms(3)
  by (simp add: get_proportion_def)

text \<open>
  One tied pair and \<open>minpairs = 1\<close>: the result is missing.
\<close>

theorem all_tied_missing_witness:
  "valid_pairs (length [3, 3 :: int]) [0] [1] \<and> all_tied [3, 3 :: int] [0] [1]
   \<and> 1 \<le> (1 :: int)
   \<and> get_proportion [3, 3 :: int] 1 [0] [1] NA_REAL = Inr NA_REAL"
proof -
  have v: "valid_pairs (length [3, 3 :: int]) [0] [1]" by (simp add: valid_pairs_def)
  have a: "all_tied [3, 3 :: int] [0] [1]" by (simp add: all_tied_def)
  have mp: "1 \<le> (1 :: int)" by simp
  from all_tied_missing [OF v a mp] show ?thesis using v a by simp
qed

section \<open>Early stopping\<close>














section \<open>The permutation loop\<close>

lemma early_return_values:
  "early_return minp thr f c L = Some r \<Longrightarrow> r = Fin (- 1) \<or> r = Fin 1"
  by (auto simp: early_return_def Let_def split: if_splits)

lemma pair_loop_early_values:
  "pair_loop expr minp thr m1 m2 nf nt = Inr (Inl r) \<Longrightarrow> r = Fin (- 1) \<or> r = Fin 1"
proof (induction expr minp thr m1 m2 nf nt rule: pair_loop.induct)
  case (3 expr minpairs threshold i m1 j m2 was_first was_total)
  then show ?case
    by (auto simp: Let_def split: sum.splits option.splits if_splits dest: early_return_values)
qed simp_all

lemma pair_loop_defined:
  "valid_pairs (length expr) m1 m2 \<Longrightarrow> \<exists>r. pair_loop expr minp thr m1 m2 nf nt = Inr r"
proof (induction m1 arbitrary: m2 nf nt)
  case Nil
  then show ?case by simp
next
  case (Cons i m1)
  then obtain j m2' where m2: "m2 = j # m2'"
    by (cases m2) (auto simp: valid_pairs_def)
  with Cons.prems have rng: "0 \<le> i" "i < int (length expr)" "0 \<le> j" "j < int (length expr)"
    and rest: "valid_pairs (length expr) m1 m2'" by simp_all
  show ?case
    unfolding m2 using Cons.IH [OF rest] rng
    by (simp add: expr_at_in_range Let_def split: option.splits)
qed

lemma thresholded_values:
  assumes "valid_pairs (length expr) m1 m2" "\<not> ISNA thr"
  shows "get_proportion expr minp m1 m2 thr = Inr NA_REAL
       \<or> get_proportion expr minp m1 m2 thr = Inr (Fin (- 1))
       \<or> get_proportion expr minp m1 m2 thr = Inr (Fin 1)"
proof -
  from pair_loop_defined [OF assms(1)]
  obtain r where r: "pair_loop expr minp thr m1 m2 0 0 = Inr r" by blast
  show ?thesis
  proof (cases r)
    case (Inl d)
    with r pair_loop_early_values [of expr minp thr m1 m2 0 0 d] show ?thesis
      by (auto simp: get_proportion_def)
  next
    case (Inr p)
    with r assms(2) show ?thesis
      by (cases p) (simp add: get_proportion_def Let_def)
  qed
qed

lemma permuting_length: "permuting shf \<Longrightarrow> length (fst (shf g xs)) = length xs"
  by (metis permuting_def size_mset)

lemma validCount_Cons [simp]:
  "validCount (s # scores) =
     (case s of Inl e \<Rightarrow> validCount scores
      | Inr r \<Rightarrow> if ISNA r then validCount scores else Suc (validCount scores))"
  by (simp add: validCount_def split: sum.splits)

lemma belowCount_Cons [simp]:
  "belowCount (s # scores) = (if s = Inr (Fin (- 1)) then Suc (belowCount scores) else belowCount scores)"
  by (simp add: belowCount_def)

lemma counts_Nil [simp]: "validCount [] = 0" "belowCount [] = 0"
  by (simp_all add: validCount_def belowCount_def)

lemma trial_scores_0 [simp]: "trial_scores shf minp m1 m2 u 0 cur g = []"
  by (simp add: trial_scores_def)

lemma trial_scores_Suc:
  "trial_scores shf minp m1 m2 u (Suc n) cur g =
     get_proportion (fst (shf g cur)) minp m1 m2 u
       # trial_scores shf minp m1 m2 u n (fst (shf g cur)) (snd (shf g cur))"
  by (simp add: trial_scores_def case_prod_beta)

lemma length_trial_scores [simp]: "length (trial_scores shf minp m1 m2 u n cur g) = n"
  by (induction n arbitrary: cur g) (simp_all add: trial_scores_Suc)

lemma length_shuffle_chain [simp]: "length (shuffle_chain shf n cur g) = n"
  by (induction n arbitrary: cur g) simp_all

lemma after_0 [simp]: "source_after shf 0 cur g = g" "buffer_after shf 0 cur g = cur"
  by (simp_all add: source_after_def buffer_after_def)

lemma after_Suc:
  "source_after shf (Suc n) cur g = source_after shf n (fst (shf g cur)) (snd (shf g cur))"
  "buffer_after shf (Suc n) cur g = buffer_after shf n (fst (shf g cur)) (snd (shf g cur))"
  by (simp_all add: source_after_def buffer_after_def)

lemma trial_loop_counts:
  assumes "permuting shf" "valid_pairs (length cur) m1 m2" "\<not> ISNA u"
  shows "trial_loop shf minp m1 m2 u n cur g b t =
           Inr (b + int (belowCount (trial_scores shf minp m1 m2 u n cur g)),
                t + int (validCount (trial_scores shf minp m1 m2 u n cur g)),
                buffer_after shf n cur g, source_after shf n cur g)"
  using assms(2)
proof (induction n arbitrary: cur g b t)
  case 0
  then show ?case by simp
next
  case (Suc n)
  obtain sh g' where sh: "shf g cur = (sh, g')" by (cases "shf g cur")
  have len: "length sh = length cur"
    using permuting_length [OF assms(1), of g cur] sh by simp
  with Suc.prems have v: "valid_pairs (length sh) m1 m2" by simp
  note IH = Suc.IH [OF v]
  from thresholded_values [OF v assms(3), of minp]
  consider "get_proportion sh minp m1 m2 u = Inr NA_REAL"
    | "get_proportion sh minp m1 m2 u = Inr (Fin (- 1))"
    | "get_proportion sh minp m1 m2 u = Inr (Fin 1)" by blast
  then show ?case
    by cases (simp_all add: sh IH trial_scores_Suc after_Suc ISNA_def)
qed

lemma shuffle_chain_hd: "0 < n \<Longrightarrow> shuffle_chain shf n cur g ! 0 = shf g cur"
  by (cases n) simp_all

lemma shuffle_chain_step:
  "Suc i < n \<Longrightarrow>
     shuffle_chain shf n cur g ! Suc i =
       shf (snd (shuffle_chain shf n cur g ! i)) (fst (shuffle_chain shf n cur g ! i))"
proof (induction n arbitrary: cur g i)
  case 0
  then show ?case by simp
next
  case (Suc n)
  show ?case
  proof (cases i)
    case 0
    with Suc.prems have "0 < n" by simp
    then show ?thesis using 0 by (simp add: shuffle_chain_hd)
  next
    case (Suc i')
    with Suc.prems have "Suc i' < n" by simp
    from Suc.IH [OF this] show ?thesis using Suc by simp
  qed
qed

lemma shuffle_chain_mset:
  "permuting shf \<Longrightarrow> i < n \<Longrightarrow> mset (fst (shuffle_chain shf n cur g ! i)) = mset cur"
proof (induction n arbitrary: cur g i)
  case 0
  then show ?case by simp
next
  case (Suc n)
  have one: "mset (fst (shf g cur)) = mset cur"
    using Suc.prems(1) by (simp add: permuting_def)
  show ?case
  proof (cases i)
    case 0
    then show ?thesis by (simp add: one)
  next
    case (Suc i')
    with Suc.prems have "i' < n" by simp
    from Suc.IH [OF Suc.prems(1) this] show ?thesis using Suc one by simp
  qed
qed

lemma buffer_after_mset: "permuting shf \<Longrightarrow> mset (buffer_after shf n cur g) = mset cur"
proof (induction n arbitrary: cur g)
  case 0
  then show ?case by simp
next
  case (Suc n)
  have "mset (fst (shf g cur)) = mset cur"
    using Suc.prems by (simp add: permuting_def)
  with Suc.IH [OF Suc.prems] show ?case by (simp add: after_Suc)
qed

lemma shuffle_chain_after:
  "i < n \<Longrightarrow>
     shuffle_chain shf n cur g ! i = (buffer_after shf (Suc i) cur g, source_after shf (Suc i) cur g)"
proof (induction n arbitrary: cur g i)
  case 0
  then show ?case by simp
next
  case (Suc n)
  show ?case
  proof (cases i)
    case 0
    then show ?thesis by (simp add: after_Suc)
  next
    case (Suc j)
    with Suc.prems have "j < n" by simp
    from Suc.IH [OF this, of "fst (shf g cur)" "snd (shf g cur)"] Suc show ?thesis
      by (simp add: after_Suc)
  qed
qed

text \<open>
  Claim C9. With a shuffle primitive that rearranges its argument, the permutation loop
  scores the entries of the shuffle chain of the vector gathered for the sample: the first
  trial scores the shuffle of that vector, each later trial the shuffle of the buffer of
  the trial before (the buffer is never restored), entry \<open>i\<close> of the chain is the buffer
  the loop holds after \<open>i + 1\<close> iterations, and every buffer scored, like the buffer left
  after the loop, holds the same multiset of values as the gathered vector.
\<close>

theorem trial_buffer_invariant:
  assumes "permuting shf" "valid_pairs (length cur) m1 m2" "\<not> ISNA observed"
  shows "(\<forall>i<n. mset (fst (shuffle_chain shf n cur g ! i)) = mset cur)
       \<and> (0 < n \<longrightarrow> shuffle_chain shf n cur g ! 0 = shf g cur)
       \<and> (\<forall>i. Suc i < n \<longrightarrow>
             shuffle_chain shf n cur g ! Suc i =
               shf (snd (shuffle_chain shf n cur g ! i)) (fst (shuffle_chain shf n cur g ! i)))
       \<and> (\<forall>i<n. fst (shuffle_chain shf n cur g ! i) = buffer_after shf (Suc i) cur g)
       \<and> trial_loop shf minp m1 m2 observed n cur g 0 0 =
           Inr (int (belowCount (map (\<lambda>(b, g'). get_proportion b minp m1 m2 observed)
                                   (shuffle_chain shf n cur g))),
                int (validCount (map (\<lambda>(b, g'). get_proportion b minp m1 m2 observed)
                                   (shuffle_chain shf n cur g))),
                buffer_after shf n cur g, source_after shf n cur g)
       \<and> mset (buffer_after shf n cur g) = mset cur"
proof (intro conjI)
  show "\<forall>i<n. mset (fst (shuffle_chain shf n cur g ! i)) = mset cur"
    using assms(1) by (simp add: shuffle_chain_mset)
  show "0 < n \<longrightarrow> shuffle_chain shf n cur g ! 0 = shf g cur"
    by (simp add: shuffle_chain_hd)
  show "\<forall>i. Suc i < n \<longrightarrow>
             shuffle_chain shf n cur g ! Suc i =
               shf (snd (shuffle_chain shf n cur g ! i)) (fst (shuffle_chain shf n cur g ! i))"
    by (simp add: shuffle_chain_step)
  show "\<forall>i<n. fst (shuffle_chain shf n cur g ! i) = buffer_after shf (Suc i) cur g"
    by (simp add: shuffle_chain_after)
  show "trial_loop shf minp m1 m2 observed n cur g 0 0 =
           Inr (int (belowCount (map (\<lambda>(b, g'). get_proportion b minp m1 m2 observed)
                                   (shuffle_chain shf n cur g))),
                int (validCount (map (\<lambda>(b, g'). get_proportion b minp m1 m2 observed)
                                   (shuffle_chain shf n cur g))),
                buffer_after shf n cur g, source_after shf n cur g)"
    using trial_loop_counts [OF assms, of minp n g 0 0] by (simp add: trial_scores_def)
  show "mset (buffer_after shf n cur g) = mset cur"
    using assms(1) by (rule buffer_after_mset)
qed

lemma mset_rotate: "mset (rotate n xs) = mset xs"
proof -
  have "mset (drop (n mod length xs) xs @ take (n mod length xs) xs) =
        mset (take (n mod length xs) xs @ drop (n mod length xs) xs)"
    by (simp only: mset_append union_commute)
  then show ?thesis by (simp only: rotate_drop_take append_take_drop_id)
qed

lemma permuting_rotating: "permuting rotating_shuffle"
  by (simp add: permuting_def rotating_shuffle_def mset_rotate)

lemma cell_step:
  assumes prov: "cell_column mat c = Inr inIt"
    and gath: "gather inIt used = Inr cur"
    and v: "valid_pairs (length cur) m1 m2"
    and perm: "permuting shf"
    and obs: "get_proportion cur minp m1 m2 NA_REAL = Inr observed"
  shows "score_cell shf m1 m2 used nit minit minp inIt g =
     Inr (if ISNA observed then None
          else if minit \<le> int (validCount (trial_scores shf minp m1 m2 observed (nat nit) cur g))
          then Some (ddiv (int (belowCount (trial_scores shf minp m1 m2 observed (nat nit) cur g)))
                          (int (validCount (trial_scores shf minp m1 m2 observed (nat nit) cur g))))
          else None,
          if ISNA observed then g else source_after shf (nat nit) cur g)"
proof (cases "ISNA observed")
  case True
  then show ?thesis by (simp add: score_cell_def gath obs)
next
  case False
  from trial_loop_counts [OF perm v False, of minp "nat nit" g 0 0] False
  show ?thesis by (simp add: score_cell_def gath obs)
qed

lemma processed_slots_kept:
  "cell_loop shf mat m1 m2 used nit minit minp cells k outp g = Inr (out, g') \<Longrightarrow> j < k \<Longrightarrow>
     out ! j = outp ! j \<and> length out = length outp"
proof (induction cells arbitrary: k outp g)
  case Nil
  then show ?case by simp
next
  case (Cons c cells)
  from Cons.prems(1) obtain inIt v g1 where
    col: "cell_column mat c = Inr inIt"
    and sc: "score_cell shf m1 m2 used nit minit minp inIt g = Inr (v, g1)"
    and rest: "cell_loop shf mat m1 m2 used nit minit minp cells (Suc k)
                 (case v of None \<Rightarrow> outp | Some x \<Rightarrow> outp[k := x]) g1 = Inr (out, g')"
    by (auto split: sum.splits prod.splits)
  from Cons.IH [OF rest] Cons.prems(2) show ?case
    by (auto split: option.splits)
qed

text \<open>
  Claim C3. One iteration of the loop over the cells, for a cell whose column is fetched
  from the provider and whose output slot still holds its initial \<^verbatim>\<open>NA_REAL\<close>. If the
  observed score is missing, the slot stays missing and the random source is left
  untouched: no trial is run. Otherwise \<open>nit\<close> trials are run (none for a negative \<open>nit\<close>), each scored against the
  observed score; with \<open>validCount\<close> the trials whose score is not missing and \<open>belowCount\<close>
  those classified below, the slot receives \<open>belowCount / validCount\<close> when
  \<open>validCount \<ge> minit\<close> and stays missing otherwise. The later iterations leave the slot
  alone: it holds that value in the vector the call returns.
\<close>

theorem per_sample_reduction:
  assumes prov: "cell_column mat c = Inr inIt"
    and gath: "gather inIt used = Inr cur"
    and v: "valid_pairs (length cur) m1 m2"
    and perm: "permuting shf"
    and obs: "get_proportion cur minp m1 m2 NA_REAL = Inr observed"
    and slot: "k < length output" "output ! k = NA_REAL"
  shows "length (trial_scores shf minp m1 m2 observed (nat nit) cur g) = nat nit
    \<and> cell_loop shf mat m1 m2 used nit minit minp (c # cells) k output g =
        cell_loop shf mat m1 m2 used nit minit minp cells (Suc k)
          (output[k :=
             (if ISNA observed then NA_REAL
              else if minit \<le> int (validCount (trial_scores shf minp m1 m2 observed (nat nit) cur g))
              then ddiv (int (belowCount (trial_scores shf minp m1 m2 observed (nat nit) cur g)))
                        (int (validCount (trial_scores shf minp m1 m2 observed (nat nit) cur g)))
              else NA_REAL)])
          (if ISNA observed then g else source_after shf (nat nit) cur g)
    \<and> (\<forall>out g'. cell_loop shf mat m1 m2 used nit minit minp (c # cells) k output g = Inr (out, g')
          \<longrightarrow> out ! k =
             (if ISNA observed then NA_REAL
              else if minit \<le> int (validCount (trial_scores shf minp m1 m2 observed (nat nit) cur g))
              then ddiv (int (belowCount (trial_scores shf minp m1 m2 observed (nat nit) cur g)))
                        (int (validCount (trial_scores shf minp m1 m2 observed (nat nit) cur g)))
              else NA_REAL))"
proof -
  define sv where "sv =
             (if ISNA observed then NA_REAL
              else if minit \<le> int (validCount (trial_scores shf minp m1 m2 observed (nat nit) cur g))
              then ddiv (int (belowCount (trial_scores shf minp m1 m2 observed (nat nit) cur g)))
                        (int (validCount (trial_scores shf minp m1 m2 observed (nat nit) cur g)))
              else NA_REAL)"
  have same: "output[k := NA_REAL] = output"
    using slot by (metis list_update_id)
  have step: "cell_loop shf mat m1 m2 used nit minit minp (c # cells) k output g =
        cell_loop shf mat m1 m2 used nit minit minp cells (Suc k) (output[k := sv])
          (if ISNA observed then g else source_after shf (nat nit) cur g)"
    using cell_step [OF prov gath v perm obs, of nit minit g] same
    by (simp add: prov sv_def)
  have final: "out ! k = sv"
    if "cell_loop shf mat m1 m2 used nit minit minp (c # cells) k output g = Inr (out, g')"
    for out g'
    using processed_slots_kept [of shf mat m1 m2 used nit minit minp cells "Suc k"
        "output[k := sv]" "if ISNA observed then g else source_after shf (nat nit) cur g"
        out g' k] that slot(1)
    unfolding step by simp
  show ?thesis
    using step final unfolding sv_def by simp
qed

lemma demo_scores:
  "trial_scores rotating_shuffle 2 [0, 1, 2] [1, 2, 3] (Fin 1) (nat 3) [5, 3, 3, 1 :: int] (1 :: nat) =
     [Inr (Fin (- 1)), Inr (Fin (- 1)), Inr (Fin (- 1))]"
  by code_simp

lemma demo_counts:
  "validCount [Inr (Fin (- 1)), Inr (Fin (- 1)), Inr (Fin (- 1))] = 3"
  "belowCount [Inr (Fin (- 1)), Inr (Fin (- 1)), Inr (Fin (- 1))] = 3"
  by (simp_all add: validCount_def belowCount_def ISNA_def)

lemma demo_after:
  "source_after rotating_shuffle (nat 3) [5, 3, 3, 1 :: int] (1 :: nat) = 4"
  "buffer_after rotating_shuffle (nat 3) [5, 3, 3, 1 :: int] (1 :: nat) = [3, 1, 5, 3]"
  by code_simp+

text \<open>
  The example of the specification with three trials of the rotating stand-in: every trial
  is valid and below the observed score 1, and the output is \<open>3 / 3\<close>.
\<close>

theorem per_sample_reduction_witness:
  "cell_column demo_matrix 1 = Inr [5, 3, 3, 1]
   \<and> gather [5, 3, 3, 1 :: int] [0, 1, 2, 3] = Inr [5, 3, 3, 1]
   \<and> valid_pairs (length [5, 3, 3, 1 :: int]) [0, 1, 2] [1, 2, 3]
   \<and> permuting (rotating_shuffle :: (nat, int) shuffler)
   \<and> get_proportion [5, 3, 3, 1 :: int] 2 [0, 1, 2] [1, 2, 3] NA_REAL = Inr (Fin 1)
   \<and> cell_loop rotating_shuffle demo_matrix [0, 1, 2] [1, 2, 3] [0, 1, 2, 3] 3 1 2 [1] 0
        [NA_REAL] (1 :: nat) = Inr ([Fin 1], 4)"
proof -
  have prov: "cell_column demo_matrix 1 = Inr [5, 3, 3, 1]"
    by (simp add: cell_column_def demo_matrix_def)
  have gath: "gather [5, 3, 3, 1 :: int] [0, 1, 2, 3] = Inr [5, 3, 3, 1]"
    by (simp add: expr_at_def)
  have v: "valid_pairs (length [5, 3, 3, 1 :: int]) [0, 1, 2] [1, 2, 3]"
    by (simp add: valid_pairs_def)
  have obs: "get_proportion [5, 3, 3, 1 :: int] 2 [0, 1, 2] [1, 2, 3] NA_REAL = Inr (Fin 1)"
    by code_simp
  have slot: "0 < length [NA_REAL]" "[NA_REAL] ! 0 = NA_REAL" by simp_all
  note step = per_sample_reduction [OF prov gath v permuting_rotating obs slot,
      where nit = 3 and minit = 1 and cells = "[]" and g = 1,
      unfolded demo_scores demo_counts demo_after]
  then have "cell_loop rotating_shuffle demo_matrix [0, 1, 2] [1, 2, 3] [0, 1, 2, 3] 3 1 2 [1] 0
        [NA_REAL] (1 :: nat) = Inr ([Fin 1], 4)"
    by (simp add: ISNA_def ddiv_def double_quotient_one)
  with prov gath v obs permuting_rotating show ?thesis by simp
qed

text \<open>
  Three trials on the example of the specification with the rotating stand-in.
\<close>

theorem trial_buffer_invariant_witness:
  "permuting (rotating_shuffle :: (nat, int) shuffler)
   \<and> valid_pairs (length [5, 3, 3, 1 :: int]) [0, 1, 2] [1, 2, 3]
   \<and> \<not> ISNA (Fin 1)
   \<and> trial_loop rotating_shuffle 2 [0, 1, 2] [1, 2, 3] (Fin 1) (nat 3) [5, 3, 3, 1 :: int] (1 :: nat) 0 0
       = Inr (3, 3, [3, 1, 5, 3], 4)
   \<and> mset [3, 1, 5, 3 :: int] = mset [5, 3, 3, 1]"
proof -
  have v: "valid_pairs (length [5, 3, 3, 1 :: int]) [0, 1, 2] [1, 2, 3]"
    by (simp add: valid_pairs_def)
  have na: "\<not> ISNA (Fin 1)" by (simp add: ISNA_def)
  note inv = trial_buffer_invariant [OF permuting_rotating v na,
      where n = "nat 3" and g = 1 and minp = 2,
      folded trial_scores_def, unfolded demo_scores demo_counts demo_after]
  then have "trial_loop rotating_shuffle 2 [0, 1, 2] [1, 2, 3] (Fin 1) (nat 3) [5, 3, 3, 1 :: int] (1 :: nat) 0 0
       = Inr (3, 3, [3, 1, 5, 3], 4)"
    and "mset [3, 1, 5, 3 :: int] = mset [5, 3, 3, 1]"
    by simp_all
  with v na permuting_rotating show ?thesis by simp
qed

section \<open>Validation and sample identifiers\<close>

lemma check_markers_valid:
  "valid_pairs n m1 m2 \<Longrightarrow> check_markers n m1 m2 = Inr ()"
proof (induction m1 arbitrary: m2)
  case Nil
  then show ?case by simp
next
  case (Cons i m1)
  then obtain j m2' where m2: "m2 = j # m2'"
    by (cases m2) (auto simp: valid_pairs_def)
  with Cons show ?case by simp
qed

lemma check_markers_invalid:
  "length m1 = length m2 \<Longrightarrow> \<not> valid_pairs n m1 m2 \<Longrightarrow>
     check_markers n m1 m2 = Inl (runtime_error ''first marker indices are out of range'')
     \<or> check_markers n m1 m2 = Inl (runtime_error ''second marker indices are out of range'')"
proof (induction m1 m2 rule: list_induct2)
  case Nil
  then show ?case by simp
next
  case (Cons i m1 j m2)
  then show ?case by (simp del: valid_pairs_Cons add: valid_pairs_Cons [of n i m1 j m2])
qed

lemma check_used_valid: "valid_used n used \<Longrightarrow> check_used n used = Inr ()"
  by (induction used) (auto simp: valid_used_def)

lemma check_used_invalid:
  "\<not> valid_used n used \<Longrightarrow>
     check_used n used = Inl (runtime_error ''used gene indices are out of range'')"
  by (induction used) (auto simp: valid_used_def)

lemma gather_valid:
  "valid_used (length col) used \<Longrightarrow> gather col used = Inr (map (\<lambda>u. col ! nat u) used)"
  by (induction used) (auto simp: valid_used_def expr_at_in_range)

lemma cell_loop_total:
  assumes v: "valid_pairs (length used) m1 m2"
    and vu: "valid_used (get_nrow mat) used"
    and perm: "permuting shf"
    and prov: "\<forall>c \<in> set cells. \<exists>col. cell_column mat c = Inr col \<and> length col = get_nrow mat"
  shows "\<exists>out g'. cell_loop shf mat m1 m2 used nit minit minp cells k outp g = Inr (out, g')
           \<and> length out = length outp"
  using prov
proof (induction cells arbitrary: k outp g)
  case Nil
  then show ?case by simp
next
  case (Cons c cells)
  then obtain col where col: "cell_column mat c = Inr col" "length col = get_nrow mat"
    by auto
  have gath: "gather col used = Inr (map (\<lambda>u. col ! nat u) used)"
    using vu col(2) by (simp add: gather_valid)
  have v': "valid_pairs (length (map (\<lambda>u. col ! nat u) used)) m1 m2" using v by simp
  note obs = get_proportion_full_pass_NA [OF v', of minp]
  note sc = cell_step [OF col(1) gath v' perm obs, of nit minit g]
  from Cons.prems have rest: "\<forall>c \<in> set cells. \<exists>col. cell_column mat c = Inr col
      \<and> length col = get_nrow mat" by simp
  obtain w g1 where w: "score_cell shf m1 m2 used nit minit minp col g = Inr (w, g1)"
    using sc by blast
  from Cons.IH [OF rest, of "Suc k" "case w of None \<Rightarrow> outp | Some x \<Rightarrow> outp[k := x]" g1]
  show ?case by (auto simp: col(1) w split: option.splits)
qed


lemmas run_defs = shuffle_scores_def shuffle_scores_internal_def Let_def

text \<open>
  Claim C6. \<^verbatim>\<open>shuffle_scores\<close> ends in an error, which carries no output, whenever the two
  marker vectors differ in length, a marker index is negative or at least the number of
  used indices, or a used index is negative or at least the number of rows; the error does
  not depend on the provider's columns, the shuffle primitive or the requested cells. With
  the three scalar arguments unwrapped, the errors are those of the source, and when every
  check passes the call is the loop over the cells on an output vector of missing values,
  which returns one value per requested cell when the provider serves the requested columns
  and the shuffle primitive rearranges.
\<close>

theorem validation_fatal:
  "(length m1 \<noteq> length m2 \<longrightarrow>
      shuffle_scores chk shf cells mat m1 m2 used iter miniter minpair g =
        Inl (runtime_error ''vectors of markers must be of the same length''))
   \<and> (\<not> (valid_pairs (length used) m1 m2 \<and> valid_used (get_nrow mat) used) \<longrightarrow>
        isl (shuffle_scores chk shf cells mat m1 m2 used iter miniter minpair g))
   \<and> (chk iter ''number of iterations'' = Inr nit
        \<and> chk miniter ''minimum number of iterations'' = Inr minit
        \<and> chk minpair ''minimum number of pairs'' = Inr minp \<longrightarrow>
      (length m1 = length m2 \<and> \<not> valid_pairs (length used) m1 m2 \<longrightarrow>
         shuffle_scores chk shf cells mat m1 m2 used iter miniter minpair g =
           Inl (runtime_error ''first marker indices are out of range'')
         \<or> shuffle_scores chk shf cells mat m1 m2 used iter miniter minpair g =
           Inl (runtime_error ''second marker indices are out of range''))
      \<and> (valid_pairs (length used) m1 m2 \<and> \<not> valid_used (get_nrow mat) used \<longrightarrow>
         shuffle_scores chk shf cells mat m1 m2 used iter miniter minpair g =
           Inl (runtime_error ''used gene indices are out of range''))
      \<and> (valid_pairs (length used) m1 m2 \<and> valid_used (get_nrow mat) used \<longrightarrow>
         shuffle_scores chk shf cells mat m1 m2 used iter miniter minpair g =
           cell_loop shf mat m1 m2 used nit minit minp cells 0
             (replicate (length cells) NA_REAL) g
         \<and> (permuting shf
              \<and> (\<forall>c \<in> set cells. \<exists>col. cell_column mat c = Inr col
                     \<and> length col = get_nrow mat) \<longrightarrow>
            (\<exists>out g'. shuffle_scores chk shf cells mat m1 m2 used iter miniter minpair g =
                         Inr (out, g') \<and> length out = length cells))))"
proof (intro conjI impI)
  assume "length m1 \<noteq> length m2"
  then show "shuffle_scores chk shf cells mat m1 m2 used iter miniter minpair g =
        Inl (runtime_error ''vectors of markers must be of the same length'')"
    by (simp add: run_defs)
next
  assume bad: "\<not> (valid_pairs (length used) m1 m2 \<and> valid_used (get_nrow mat) used)"
  show "isl (shuffle_scores chk shf cells mat m1 m2 used iter miniter minpair g)"
  proof (cases "length m1 = length m2")
    case False
    then show ?thesis by (simp add: run_defs)
  next
    case True
    show ?thesis
    proof (cases "valid_pairs (length used) m1 m2")
      case False
      with check_markers_invalid [OF True False] show ?thesis
        by (auto simp: run_defs split: sum.splits)
    next
      case v: True
      with bad have "\<not> valid_used (get_nrow mat) used" by simp
      from check_used_invalid [OF this] show ?thesis
        by (auto simp: run_defs split: sum.splits)
    qed
  qed
next
  assume sc: "chk iter ''number of iterations'' = Inr nit
        \<and> chk miniter ''minimum number of iterations'' = Inr minit
        \<and> chk minpair ''minimum number of pairs'' = Inr minp"
    and bad: "length m1 = length m2 \<and> \<not> valid_pairs (length used) m1 m2"
  from bad check_markers_invalid [of m1 m2 "length used"]
  show "shuffle_scores chk shf cells mat m1 m2 used iter miniter minpair g =
           Inl (runtime_error ''first marker indices are out of range'')
         \<or> shuffle_scores chk shf cells mat m1 m2 used iter miniter minpair g =
           Inl (runtime_error ''second marker indices are out of range'')"
    using sc by (auto simp: run_defs)
next
  assume sc: "chk iter ''number of iterations'' = Inr nit
        \<and> chk miniter ''minimum number of iterations'' = Inr minit
        \<and> chk minpair ''minimum number of pairs'' = Inr minp"
    and bad: "valid_pairs (length used) m1 m2 \<and> \<not> valid_used (get_nrow mat) used"
  from bad have len: "length m1 = length m2" by (simp add: valid_pairs_def)
  from bad check_markers_valid [of "length used" m1 m2] check_used_invalid [of "get_nrow mat" used]
  show "shuffle_scores chk shf cells mat m1 m2 used iter miniter minpair g =
           Inl (runtime_error ''used gene indices are out of range'')"
    using sc len by (simp add: run_defs)
next
  assume sc: "chk iter ''number of iterations'' = Inr nit
        \<and> chk miniter ''minimum number of iterations'' = Inr minit
        \<and> chk minpair ''minimum number of pairs'' = Inr minp"
    and ok: "valid_pairs (length used) m1 m2 \<and> valid_used (get_nrow mat) used"
  from ok have len: "length m1 = length m2" by (simp add: valid_pairs_def)
  from ok check_markers_valid [of "length used" m1 m2] check_used_valid [of "get_nrow mat" used]
  show run: "shuffle_scores chk shf cells mat m1 m2 used iter miniter minpair g =
           cell_loop shf mat m1 m2 used nit minit minp cells 0
             (replicate (length cells) NA_REAL) g"
    using sc len by (simp add: run_defs)
  assume "permuting shf
              \<and> (\<forall>c \<in> set cells. \<exists>col. cell_column mat c = Inr col
                     \<and> length col = get_nrow mat)"
  with ok cell_loop_total [of used m1 m2 mat shf cells nit minit minp 0
      "replicate (length cells) NA_REAL" g]
  show "\<exists>out g'. shuffle_scores chk shf cells mat m1 m2 used iter miniter minpair g =
                         Inr (out, g') \<and> length out = length cells"
    unfolding run by simp
qed







text \<open>
  A marker index equal to the number of used indices and a used index equal to the number
  of rows are both refused; the valid call runs the loop over the cells.
\<close>

theorem validation_fatal_witness:
  "\<not> valid_pairs (length [0, 1, 2, 3 :: int]) [0, 1, 4] [1, 2, 3]
   \<and> shuffle_scores length_one_scalar (rotating_shuffle :: (nat, int) shuffler) [1] demo_matrix
      [0, 1, 4] [1, 2, 3] [0, 1, 2, 3] [3] [1] [2] 1
       = Inl (runtime_error ''first marker indices are out of range'')
   \<and> valid_pairs (length [0, 1, 2, 3 :: int]) [0, 1, 2] [1, 2, 3]
   \<and> \<not> valid_used (get_nrow demo_matrix) [0, 1, 2, 4]
   \<and> shuffle_scores length_one_scalar (rotating_shuffle :: (nat, int) shuffler) [1] demo_matrix
      [0, 1, 2] [1, 2, 3] [0, 1, 2, 4] [3] [1] [2] 1
       = Inl (runtime_error ''used gene indices are out of range'')
   \<and> valid_used (get_nrow demo_matrix) [0, 1, 2, 3]
   \<and> shuffle_scores length_one_scalar (rotating_shuffle :: (nat, int) shuffler) [1] demo_matrix
      [0, 1, 2] [1, 2, 3] [0, 1, 2, 3] [3] [1] [2] 1
       = cell_loop rotating_shuffle demo_matrix [0, 1, 2] [1, 2, 3] [0, 1, 2, 3] 3 1 2 [1] 0
           (replicate (length [1 :: int]) NA_REAL) 1"
proof -
  have sc: "length_one_scalar [3] ''number of iterations'' = Inr 3
        \<and> length_one_scalar [1] ''minimum number of iterations'' = Inr 1
        \<and> length_one_scalar [2] ''minimum number of pairs'' = Inr 2"
    by (simp add: length_one_scalar_def)
  have bad1: "length [0, 1, 4 :: int] = length [1, 2, 3 :: int]
      \<and> \<not> valid_pairs (length [0, 1, 2, 3 :: int]) [0, 1, 4] [1, 2, 3]"
    by (simp add: valid_pairs_def)
  have v: "valid_pairs (length [0, 1, 2, 3 :: int]) [0, 1, 2] [1, 2, 3]"
    by (simp add: valid_pairs_def)
  have bad2: "\<not> valid_used (get_nrow demo_matrix) [0, 1, 2, 4]"
    by (simp add: valid_used_def demo_matrix_def)
  have vu: "valid_used (get_nrow demo_matrix) [0, 1, 2, 3]"
    by (simp add: valid_used_def demo_matrix_def)
  have first: "shuffle_scores length_one_scalar (rotating_shuffle :: (nat, int) shuffler) [1]
      demo_matrix [0, 1, 4] [1, 2, 3] [0, 1, 2, 3] [3] [1] [2] 1
       = Inl (runtime_error ''first marker indices are out of range'')"
    by (simp add: run_defs length_one_scalar_def)
  note a = validation_fatal [where chk = length_one_scalar
      and shf = "rotating_shuffle :: (nat, int) shuffler" and mat = demo_matrix
      and ?m1.0 = "[0, 1, 2]" and ?m2.0 = "[1, 2, 3]" and used = "[0, 1, 2, 4]" and iter = "[3]"
      and miniter = "[1]" and minpair = "[2]" and g = 1 and cells = "[1]"
      and nit = 3 and minit = 1 and minp = 2]
  note b = validation_fatal [where chk = length_one_scalar
      and shf = "rotating_shuffle :: (nat, int) shuffler" and mat = demo_matrix
      and ?m1.0 = "[0, 1, 2]" and ?m2.0 = "[1, 2, 3]" and used = "[0, 1, 2, 3]" and iter = "[3]"
      and miniter = "[1]" and minpair = "[2]" and g = 1 and cells = "[1]"
      and nit = 3 and minit = 1 and minp = 2]
  have v': "valid_pairs (length [0, 1, 2, 4 :: int]) [0, 1, 2] [1, 2, 3]"
    by (simp add: valid_pairs_def)
  from a sc v' bad2 have used_err:
    "shuffle_scores length_one_scalar (rotating_shuffle :: (nat, int) shuffler) [1] demo_matrix
      [0, 1, 2] [1, 2, 3] [0, 1, 2, 4] [3] [1] [2] 1
       = Inl (runtime_error ''used gene indices are out of range'')"
    by blast
  from b sc v vu have run:
    "shuffle_scores length_one_scalar (rotating_shuffle :: (nat, int) shuffler) [1] demo_matrix
      [0, 1, 2] [1, 2, 3] [0, 1, 2, 3] [3] [1] [2] 1
       = cell_loop rotating_shuffle demo_matrix [0, 1, 2] [1, 2, 3] [0, 1, 2, 3] 3 1 2 [1] 0
           (replicate (length [1 :: int]) NA_REAL) 1"
    by blast
  from bad1 first v bad2 used_err vu run show ?thesis by blast
qed

section \<open>The columns of the cascading shuffle\<close>

lemma shuffle_chain_length:
  "permuting shf \<Longrightarrow> i < n \<Longrightarrow> length (fst (shuffle_chain shf n cur g ! i)) = length cur"
  using shuffle_chain_mset [of shf i n cur g] by (metis size_mset)

lemma column_concat:
  "\<forall>xs \<in> set xss. length xs = N \<Longrightarrow> i < length xss \<Longrightarrow>
     take N (drop (i * N) (concat xss)) = xss ! i"
proof (induction xss arbitrary: i)
  case Nil
  then show ?case by simp
next
  case (Cons x xss)
  show ?case
  proof (cases i)
    case 0
    with Cons.prems show ?thesis by simp
  next
    case (Suc j)
    with Cons.prems have "j < length xss" "length x = N" by simp_all
    with Cons.IH [of j] Cons.prems(1) Suc show ?thesis by simp
  qed
qed

lemma length_concat_uniform:
  "\<forall>xs \<in> set xss. length xs = N \<Longrightarrow> length (concat xss) = length xss * N"
  by (induction xss) simp_all

lemma shuffle_columns_chain:
  assumes perm: "permuting shf"
  shows "length outmat = off + n * N \<Longrightarrow> read_source invec outmat source N = src \<Longrightarrow>
         length src = N \<Longrightarrow>
         shuffle_columns shf invec N n source off outmat g =
           (take off outmat @ concat (map fst (shuffle_chain shf n src g)),
            source_after shf n src g)"
proof (induction n arbitrary: source off outmat g src)
  case 0
  then show ?case by simp
next
  case (Suc n)
  obtain sh g' where sh: "shf g src = (sh, g')" by (cases "shf g src")
  have lsh: "length sh = N"
    using permuting_length [OF perm, of g src] sh Suc.prems(3) by simp
  define copied where "copied = write_range outmat off src"
  have off_le: "off + N \<le> length outmat" using Suc.prems(1) by simp
  have copied_eq: "copied = take off outmat @ src @ drop (off + N) outmat"
    by (simp add: copied_def write_range_def Suc.prems(3))
  have window: "take N (drop off copied) = src"
    using off_le Suc.prems(3) by (simp add: copied_eq)
  define outmat' where "outmat' = write_range copied off sh"
  have outmat'_eq: "outmat' = take off outmat @ sh @ drop (off + N) outmat"
    using off_le Suc.prems(3) lsh by (simp add: outmat'_def write_range_def copied_eq)
  have len': "length outmat' = (off + N) + n * N"
    using off_le Suc.prems(1) lsh by (simp add: outmat'_eq)
  have rd: "read_source invec outmat' (Into_outmat off) N = sh"
    using off_le lsh by (simp add: read_source_def outmat'_eq)
  have tk: "take (off + N) outmat' = take off outmat @ sh"
    using off_le lsh by (simp add: outmat'_eq)
  have step: "shuffle_columns shf invec N (Suc n) source off outmat g =
      shuffle_columns shf invec N n (Into_outmat off) (off + N) outmat' g'"
    by (simp add: Let_def Suc.prems(2) window sh flip: copied_def outmat'_def)
  show ?case
    unfolding step Suc.IH [OF len' rd lsh] tk
    by (simp add: sh after_Suc)
qed

text \<open>
  Claim C7. For a positive iteration count \<open>k\<close> and a shuffle primitive that rearranges its
  argument, \<^verbatim>\<open>auto_shuffle\<close> returns a matrix with as many rows as the source vector and \<open>k\<close>
  columns; column 0 is the shuffle of the source vector, every later column is the shuffle
  of the column before it, and so every column holds the same multiset of values as the
  column before it and as the source vector.
\<close>

theorem cascading_shuffle:
  assumes perm: "permuting shf" and pos: "0 < k"
  shows "\<exists>M g'. auto_shuffle shf v (k # rest) g = Inr (M, g')
     \<and> nrow M = length v \<and> ncol M = nat k \<and> length (entries M) = length v * nat k
     \<and> column M 0 = fst (shf g v)
     \<and> (\<forall>i. Suc i < nat k \<longrightarrow> (\<exists>gi. column M (Suc i) = fst (shf gi (column M i))))
     \<and> (\<forall>i. Suc i < nat k \<longrightarrow> mset (column M (Suc i)) = mset (column M i))
     \<and> (\<forall>i < nat k. mset (column M i) = mset v)"
proof -
  define n where "n = nat k"
  define chain where "chain = shuffle_chain shf n v g"
  define M where "M = \<lparr>nrow = length v, ncol = n, entries = concat (map fst chain)\<rparr>"
  have npos: "0 < n" using pos by (simp add: n_def)
  have lens: "\<forall>xs \<in> set (map fst chain). length xs = length v"
  proof
    fix xs assume "xs \<in> set (map fst chain)"
    then obtain i where "i < n" "xs = fst (chain ! i)"
      by (auto simp: chain_def in_set_conv_nth)
    then show "length xs = length v"
      using shuffle_chain_length [OF perm, of i n v g] by (simp add: chain_def)
  qed
  have run: "shuffle_columns shf v (length v) n Into_invec 0 (replicate (length v * n) 0) g =
      (concat (map fst chain), source_after shf n v g)"
    using shuffle_columns_chain [OF perm, of "replicate (length v * n) 0" 0 n "length v" v
        Into_invec v g]
    by (simp add: read_source_def chain_def mult.commute)
  have res: "auto_shuffle shf v (k # rest) g = Inr (M, source_after shf n v g)"
    using pos by (simp add: auto_shuffle_def Let_def run M_def flip: n_def)
  have col: "column M i = fst (chain ! i)" if "i < n" for i
    using column_concat [OF lens, of i] that by (simp add: column_def M_def chain_def)
  have c0: "column M 0 = fst (shf g v)"
    using col [OF npos] shuffle_chain_hd [OF npos, of shf v g] by (simp add: chain_def)
  have cs: "column M (Suc i) = fst (shf (snd (chain ! i)) (column M i))" if "Suc i < n" for i
    using col [OF that] col [of i] that shuffle_chain_step [OF that, of shf v g]
    by (simp add: chain_def)
  have ms: "mset (column M i) = mset v" if "i < n" for i
    using col [OF that] shuffle_chain_mset [OF perm that, of v g] by (simp add: chain_def)
  have ms2: "mset (column M (Suc i)) = mset (column M i)" if "Suc i < n" for i
    using ms [OF that] ms [of i] that by simp
  have shape: "nrow M = length v" "ncol M = n" "length (entries M) = length v * n"
    using length_concat_uniform [OF lens] by (simp_all add: M_def chain_def mult.commute)
  show ?thesis
    using res shape c0 cs ms ms2 unfolding n_def by blast
qed

text \<open>
  Three columns from the vector \<open>[5, 3, 3, 1]\<close> with the rotating stand-in.
\<close>

theorem cascading_shuffle_witness:
  "permuting (rotating_shuffle :: (nat, int) shuffler) \<and> 0 < (3 :: int)
   \<and> auto_shuffle rotating_shuffle [5, 3, 3, 1 :: int] [3] (1 :: nat)
       = Inr (\<lparr>nrow = 4, ncol = 3, entries = [3, 3, 1, 5, 1, 5, 3, 3, 3, 1, 5, 3]\<rparr>, 4)
   \<and> column \<lparr>nrow = 4, ncol = 3, entries = [3, 3, 1, 5, 1, 5, 3, 3, 3, 1, 5, 3 :: int]\<rparr> 1
       = [1, 5, 3, 3]"
proof -
  have pos: "0 < (3 :: int)" by simp
  have ev: "auto_shuffle rotating_shuffle [5, 3, 3, 1 :: int] [3] (1 :: nat)
       = Inr (\<lparr>nrow = 4, ncol = 3, entries = [3, 3, 1, 5, 1, 5, 3, 3, 3, 1, 5, 3]\<rparr>, 4)"
    by code_simp
  have c1: "column \<lparr>nrow = 4, ncol = 3, entries = [3, 3, 1, 5, 1, 5, 3, 3, 3, 1, 5, 3 :: int]\<rparr> 1
       = [1, 5, 3, 3]"
    by (simp add: column_def)
  from cascading_shuffle [OF permuting_rotating pos, of "[5, 3, 3, 1 :: int]" "[]" 1]
  obtain M g' where "auto_shuffle rotating_shuffle [5, 3, 3, 1 :: int] [3] (1 :: nat) = Inr (M, g')"
    "nrow M = length [5, 3, 3, 1 :: int]" by blast
  with ev c1 permuting_rotating pos show ?thesis by simp
qed

end
